theory Spec2Isabelle
  imports Complex_Main
begin

section \<open>Array elements\<close>

text \<open>
  The arrays of \<^verbatim>\<open>functional_connectivity_v2.py\<close> hold IEEE doubles. An element is
  modelled as a real number, one of the two infinities, or NaN. The special values follow
  IEEE: NaN absorbs every operation and is equal to nothing, opposite infinities add up
  to NaN, a non-zero number divided by zero is an infinity and zero divided by zero is NaN.
  Rounding and overflow of finite results are not modelled: finite arithmetic is exact.
  The facts below that rest on arithmetic are about NaN and about which entries are
  numbers; no fact depends on the value of a rounded sum, quotient or product.
\<close>

datatype npfloat = Fin real | PInf | NInf | NaN

fun fadd :: "npfloat \<Rightarrow> npfloat \<Rightarrow> npfloat" where
  "fadd NaN _ = NaN"
| "fadd _ NaN = NaN"
| "fadd PInf NInf = NaN"
| "fadd NInf PInf = NaN"
| "fadd PInf _ = PInf"
| "fadd _ PInf = PInf"
| "fadd NInf _ = NInf"
| "fadd _ NInf = NInf"
| "fadd (Fin a) (Fin b) = Fin (a + b)"

text \<open>Division of an element by a Python integer, as in \<^verbatim>\<open>x / (n_parcels-1)\<close>.\<close>

fun fdiv_int :: "npfloat \<Rightarrow> int \<Rightarrow> npfloat" where
  "fdiv_int NaN n = NaN"
| "fdiv_int (Fin a) n =
     (if n = 0 then (if a = 0 then NaN else if 0 < a then PInf else NInf)
      else Fin (a / real_of_int n))"
| "fdiv_int PInf n = (if 0 \<le> n then PInf else NInf)"
| "fdiv_int NInf n = (if 0 \<le> n then NInf else PInf)"

fun is_nan :: "npfloat \<Rightarrow> bool" where
  "is_nan NaN = True"
| "is_nan _ = False"

fun is_finite :: "npfloat \<Rightarrow> bool" where
  "is_finite (Fin a) = True"
| "is_finite _ = False"

text \<open>An element that is a number of the interval \<open>[-1, 1]\<close>.\<close>

fun in_unit :: "npfloat \<Rightarrow> bool" where
  "in_unit (Fin a) = (- 1 \<le> a \<and> a \<le> 1)"
| "in_unit _ = False"

text \<open>\<^verbatim>\<open>np.sum\<close> of a one-dimensional array.\<close>

definition fsum :: "npfloat list \<Rightarrow> npfloat" where
  "fsum xs = foldr fadd xs (Fin 0)"

section \<open>Two-dimensional arrays\<close>

text \<open>
  A two-dimensional array is the list of its rows. \<open>is_matrix r c M\<close> says that \<open>M\<close>
  has shape \<open>(r, c)\<close>; every array numpy builds is rectangular.
\<close>

type_synonym matrix = "npfloat list list"

definition ncols :: "'a list list \<Rightarrow> nat" where
  "ncols M = (case M of [] \<Rightarrow> 0 | row # _ \<Rightarrow> length row)"

definition is_matrix :: "nat \<Rightarrow> nat \<Rightarrow> 'a list list \<Rightarrow> bool" where
  "is_matrix r c M = (length M = r \<and> list_all (\<lambda>row. length row = c) M)"

definition column :: "nat \<Rightarrow> 'a list list \<Rightarrow> 'a list" where
  "column c M = map (\<lambda>row. row ! c) M"

text \<open>\<^verbatim>\<open>np.sum(W, axis=0)\<close>: entry \<open>c\<close> is the sum of column \<open>c\<close> over all rows.\<close>

definition sum_axis0 :: "matrix \<Rightarrow> npfloat list" where
  "sum_axis0 W = map (\<lambda>c. fsum (column c W)) [0..<ncols W]"

text \<open>
  \<^verbatim>\<open>np.fill_diagonal(M, v)\<close> on a two-dimensional array writes \<open>v\<close> to \<open>M[i][i]\<close>
  for every \<open>i\<close> below both dimensions.
\<close>

definition fill_diagonal :: "'a list list \<Rightarrow> 'a \<Rightarrow> 'a list list" where
  "fill_diagonal M v = map (\<lambda>(i, row). row[i := v]) (enumerate 0 M)"

text \<open>
  Python's \<^verbatim>\<open>xs[a:b]\<close>: a negative bound counts from the end, and both bounds are
  clipped to the length.
\<close>

definition py_slice :: "'a list \<Rightarrow> int \<Rightarrow> int \<Rightarrow> 'a list" where
  "py_slice xs a b =
     (let n = int (length xs);
          lo = (if a < 0 then max (a + n) 0 else min a n);
          hi = (if b < 0 then max (b + n) 0 else min b n)
      in take (nat (hi - lo)) (drop (nat lo) xs))"

text \<open>
  Assignment of a two-dimensional array into a slot of shape \<open>(r, c)\<close>, as in
  \<^verbatim>\<open>dfc_matrix[i] = ...\<close>: numpy broadcasts a dimension of length 1 and raises
  \<^verbatim>\<open>ValueError\<close> (here \<open>None\<close>) on any other mismatch.
\<close>

definition broadcast_to :: "nat \<Rightarrow> nat \<Rightarrow> 'a list list \<Rightarrow> 'a list list option" where
  "broadcast_to r c M =
     (if (length M = r \<or> length M = 1) \<and> (ncols M = c \<or> ncols M = 1)
      then let rows = map (\<lambda>row. if length row = c then row else replicate c (hd row)) M
           in Some (if length M = r then rows else replicate r (hd rows))
      else None)"

section \<open>Errors\<close>

text \<open>The exceptions the modelled code can raise.\<close>

datatype py_error = ZeroDivisionError | ValueError | AttributeError

section \<open>Stationary connectivity\<close>

text \<open>
  \<^verbatim>\<open>stationary_fc\<close> hands the segment to nilearn's \<^verbatim>\<open>ConnectivityMeasure\<close> and zeroes
  the diagonal of what comes back. The estimator is a library outside the repository; it
  is the parameter \<open>correlation_measure\<close>, which returns a matrix or raises.
\<close>

definition stationary_fc ::
  "(matrix \<Rightarrow> py_error + matrix) \<Rightarrow> matrix \<Rightarrow> py_error + matrix" where
  "stationary_fc correlation_measure timeseries =
     (case correlation_measure timeseries of
        Inl e \<Rightarrow> Inl e
      | Inr sfc_matrix \<Rightarrow> Inr (fill_diagonal sfc_matrix (Fin 0)))"

section \<open>Dynamic connectivity\<close>

text \<open>
  The three expressions of \<^verbatim>\<open>dynamic_fc\<close> that do the segmentation: the number of
  windows (\<open>T\<close> is \<^verbatim>\<open>timeseries.shape[0]\<close>; Python's \<^verbatim>\<open>//\<close> is \<open>div\<close> on \<open>int\<close>),
  the rows of window \<open>i\<close>, and its timestamp in seconds. The timestamp is the value of
  the expression before rounding; the source rounds the product and the quotient to
  doubles. No fact below depends on the value of a timestamp, only on there being one
  for each window.
\<close>

definition n_windows :: "int \<Rightarrow> int \<Rightarrow> int \<Rightarrow> int" where
  "n_windows T window_size step_size = (T - window_size) div step_size + 1"

definition window_timeseries :: "'a list \<Rightarrow> int \<Rightarrow> int \<Rightarrow> nat \<Rightarrow> 'a list" where
  "window_timeseries timeseries window_size step_size i =
     py_slice timeseries (int i * step_size) (int i * step_size + window_size)"

definition window_timestamp :: "int \<Rightarrow> int \<Rightarrow> real \<Rightarrow> nat \<Rightarrow> real" where
  "window_timestamp window_size step_size frame_ms i =
     real_of_int (int i * step_size + window_size div 2) * frame_ms / 1000"

text \<open>
  The loop of \<^verbatim>\<open>dynamic_fc\<close> over \<^verbatim>\<open>range(n_windows)\<close>. The state is the pair of
  preallocated arrays; iteration \<open>i\<close> writes slot \<open>i\<close> of both. The slots of
  \<^verbatim>\<open>dfc_matrix\<close> have the fixed shape \<open>(100, 100)\<close> of the source.
\<close>

fun dfc_loop ::
  "(matrix \<Rightarrow> py_error + matrix) \<Rightarrow> matrix \<Rightarrow> int \<Rightarrow> int \<Rightarrow> real \<Rightarrow>
   matrix list \<times> real list \<Rightarrow> nat list \<Rightarrow> py_error + matrix list \<times> real list" where
  "dfc_loop cm timeseries window_size step_size frame_ms st [] = Inr st"
| "dfc_loop cm timeseries window_size step_size frame_ms (dfc_matrix, window_timestamps) (i # is) =
     (case stationary_fc cm (window_timeseries timeseries window_size step_size i) of
        Inl e \<Rightarrow> Inl e
      | Inr M \<Rightarrow>
          (case broadcast_to 100 100 M of
             None \<Rightarrow> Inl ValueError
           | Some M' \<Rightarrow>
               dfc_loop cm timeseries window_size step_size frame_ms
                 (dfc_matrix[i := M'],
                  window_timestamps[i := window_timestamp window_size step_size frame_ms i])
                 is))"

text \<open>
  \<^verbatim>\<open>dynamic_fc\<close> with \<^verbatim>\<open>out=False\<close>. A zero step raises in \<^verbatim>\<open>//\<close>; a negative
  window count raises in \<^verbatim>\<open>np.zeros\<close>.
\<close>

definition dynamic_fc ::
  "(matrix \<Rightarrow> py_error + matrix) \<Rightarrow> matrix \<Rightarrow> int \<Rightarrow> int \<Rightarrow> real \<Rightarrow>
   py_error + matrix list \<times> real list" where
  "dynamic_fc cm timeseries window_size step_size frame_ms =
     (if step_size = 0 then Inl ZeroDivisionError
      else let n = n_windows (int (length timeseries)) window_size step_size in
        if n < 0 then Inl ValueError
        else dfc_loop cm timeseries window_size step_size frame_ms
               (replicate (nat n) (replicate 100 (replicate 100 (Fin 0))),
                replicate (nat n) 0)
               [0..<nat n])"

section \<open>Global connectivity\<close>

text \<open>
  \<^verbatim>\<open>dynamic_gfc\<close>. All matrices of the three-dimensional \<^verbatim>\<open>dfc_matrix\<close> share one
  shape, so \<^verbatim>\<open>dfc_matrix.shape[-1]\<close> is the number of columns of each.
\<close>

definition dynamic_gfc :: "matrix list \<Rightarrow> npfloat list list" where
  "dynamic_gfc dfc_matrix =
     map (\<lambda>W. map (\<lambda>s. fdiv_int s (int (ncols W) - 1)) (sum_axis0 W)) dfc_matrix"

section \<open>Volume reconstruction\<close>

text \<open>
  \<^verbatim>\<open>create_dgfc_volumes\<close> copies an array, overwrites the copy in place and writes it
  into a slice of another array, so the arrays live in a store. An array is its shape and
  its elements in row-major order; the store gives every address an array, and the
  addresses below \<open>fresh\<close> are the allocated ones.
\<close>

record ndarray =
  shape :: "nat list"
  data :: "npfloat list"

record heap =
  arrays :: "nat \<Rightarrow> ndarray"
  fresh :: nat

definition alloc :: "ndarray \<Rightarrow> heap \<Rightarrow> nat \<times> heap" where
  "alloc arr h = (fresh h, h\<lparr>arrays := (arrays h)(fresh h := arr), fresh := Suc (fresh h)\<rparr>)"

text \<open>\<^verbatim>\<open>np.zeros(shape)\<close>.\<close>

definition zeros :: "nat list \<Rightarrow> ndarray" where
  "zeros shp = \<lparr>shape = shp, data = replicate (prod_list shp) (Fin 0)\<rparr>"

text \<open>
  The fields of an \<^verbatim>\<open>I2Run\<close> object that reconstruction touches. A field is \<open>None\<close>
  until the method that sets it has run. \<open>parcel_img\<close> is the address of the floating
  point data of the label image, the array \<^verbatim>\<open>parcel_img.get_fdata()\<close> returns;
  \<open>gdfc_matrix\<close> is only read and is held by value, one row per frame; \<open>gdfc_img\<close> is
  the address of the data of the image built last.
\<close>

record I2Run =
  parcel_img :: "nat option"
  gdfc_matrix :: "npfloat list list option"
  gdfc_img :: "nat option"

text \<open>
  \<^verbatim>\<open>frame_volume[frame_volume == parcel] = gfc_value\<close> on the array at address \<open>a\<close>:
  every element equal to the integer \<open>parcel\<close> is overwritten, in place.
\<close>

definition mask_assign :: "nat \<Rightarrow> nat \<Rightarrow> npfloat \<Rightarrow> heap \<Rightarrow> heap" where
  "mask_assign a parcel gfc_value h =
     h\<lparr>arrays := (arrays h)(a := (arrays h a)
        \<lparr>data := map (\<lambda>x. if x = Fin (real parcel) then gfc_value else x)
                    (data (arrays h a))\<rparr>)\<rparr>"

text \<open>
  \<^verbatim>\<open>volumes[:,:,:,i] = frame_volume\<close>: with \<open>n_frames\<close> the length of the last axis of
  the array at \<open>a_v\<close>, element \<open>k\<close> of its data belongs to voxel \<open>k div n_frames\<close> and
  frame \<open>k mod n_frames\<close>.
\<close>

definition set_frame :: "nat \<Rightarrow> nat \<Rightarrow> nat \<Rightarrow> nat \<Rightarrow> heap \<Rightarrow> heap" where
  "set_frame a_v n_frames i a_f h =
     h\<lparr>arrays := (arrays h)(a_v := (arrays h a_v)
        \<lparr>data := map (\<lambda>k. if k mod n_frames = i then data (arrays h a_f) ! (k div n_frames)
                            else data (arrays h a_v) ! k)
                    [0..<length (data (arrays h a_v))]\<rparr>)\<rparr>"

text \<open>
  One iteration of the loop over the frames: copy the template, substitute the labels
  \<open>1, 2, ...\<close> in the order of \<^verbatim>\<open>dict(enumerate(frame_values, 1))\<close>, store the frame.
\<close>

definition frame_step :: "nat \<Rightarrow> npfloat list list \<Rightarrow> nat \<Rightarrow> nat \<Rightarrow> heap \<Rightarrow> nat \<Rightarrow> heap" where
  "frame_step a_t gm a_v n_frames h i =
     (let (a_f, h1) = alloc (arrays h a_t) h;
          frame_values = gm ! i;
          frame_values_map = enumerate 1 frame_values;
          h2 = foldl (\<lambda>h' (parcel, gfc_value). mask_assign a_f parcel gfc_value h')
                 h1 frame_values_map
      in set_frame a_v n_frames i a_f h2)"

text \<open>
  \<^verbatim>\<open>I2Run.create_dgfc_volumes\<close> with \<^verbatim>\<open>out=False\<close>. Reading a field that was never
  set raises \<^verbatim>\<open>AttributeError\<close>, unpacking a shape that is not three-dimensional raises
  \<^verbatim>\<open>ValueError\<close>; both happen before the first write.
\<close>

definition create_dgfc_volumes :: "I2Run \<Rightarrow> heap \<Rightarrow> py_error + I2Run \<times> heap" where
  "create_dgfc_volumes self h =
     (case parcel_img self of
        None \<Rightarrow> Inl AttributeError
      | Some a_t \<Rightarrow>
          (case shape (arrays h a_t) of
             [x, y, z] \<Rightarrow>
               (case gdfc_matrix self of
                  None \<Rightarrow> Inl AttributeError
                | Some gm \<Rightarrow>
                    (let n_frames = length gm;
                         (a_v, h1) = alloc (zeros [x, y, z, n_frames]) h;
                         h2 = foldl (frame_step a_t gm a_v n_frames) h1 [0..<n_frames]
                     in Inr (self\<lparr>gdfc_img := Some a_v\<rparr>, h2)))
           | _ \<Rightarrow> Inl ValueError))"

text \<open>
  What the substitutions of one frame do to a single element: the element is compared
  with each label in turn and replaced on a match, so a later label can match a value an
  earlier one wrote.
\<close>

definition relabel :: "npfloat list \<Rightarrow> npfloat \<Rightarrow> npfloat" where
  "relabel frame_values x =
     foldl (\<lambda>y (parcel, gfc_value). if y = Fin (real parcel) then gfc_value else y)
       x (enumerate 1 frame_values)"

text \<open>
  The label volume as the integer grid it is on disk, and the floating point array
  \<^verbatim>\<open>get_fdata()\<close> makes of it.
\<close>

definition get_fdata :: "nat list \<Rightarrow> int list \<Rightarrow> ndarray" where
  "get_fdata shp labels = \<lparr>shape = shp, data = map (\<lambda>l. Fin (real_of_int l)) labels\<rparr>"

text \<open>The store in which nothing is allocated yet.\<close>

definition empty_heap :: heap where
  "empty_heap = \<lparr>arrays = (\<lambda>_. \<lparr>shape = [], data = []\<rparr>), fresh = 0\<rparr>"

text \<open>The frame volume built from a template and the values of one frame.\<close>

definition frame_of :: "ndarray \<Rightarrow> npfloat list \<Rightarrow> ndarray" where
  "frame_of tmpl vals = tmpl\<lparr>data := map (relabel vals) (data tmpl)\<rparr>"

text \<open>
  The invariant of the loop over the frames after \<open>m\<close> iterations, started in \<open>h1\<close>:
  \<open>m\<close> arrays were allocated, no array allocated in \<open>h1\<close> other than the output has
  changed, and the output holds the frames below \<open>m\<close>.
\<close>

definition frames_inv :: "nat \<Rightarrow> npfloat list list \<Rightarrow> nat \<Rightarrow> nat \<Rightarrow> heap \<Rightarrow> nat \<Rightarrow> heap \<Rightarrow> bool" where
  "frames_inv a_t gm a_v n h1 m h' \<longleftrightarrow>
     fresh h' = fresh h1 + m \<and>
     (\<forall>a<fresh h1. a \<noteq> a_v \<longrightarrow> arrays h' a = arrays h1 a) \<and>
     shape (arrays h' a_v) = shape (arrays h1 a_v) \<and>
     length (data (arrays h' a_v)) = length (data (arrays h1 a_v)) \<and>
     (length (data (arrays h1 a_v)) = length (data (arrays h1 a_t)) * n \<longrightarrow>
      (\<forall>k<length (data (arrays h1 a_v)). data (arrays h' a_v) ! k =
        (if k mod n < m then relabel (gm ! (k mod n)) (data (arrays h1 a_t) ! (k div n))
         else data (arrays h1 a_v) ! k)))"

text \<open>
  A GlobalVector for \<open>R\<close> regions, as the data model has it: \<open>R\<close> values, each the
  average of the correlations of one region, a number of \<open>[-1, 1]\<close>, or NaN.
\<close>

definition is_global_vector :: "nat \<Rightarrow> npfloat list \<Rightarrow> bool" where
  "is_global_vector R g = (length g = R \<and> list_all (\<lambda>v. in_unit v \<or> is_nan v) g)"

text \<open>
  A run of the estimator that returns the matrix \<open>M\<close>, whatever the segment.
\<close>

definition estimator_returning :: "matrix \<Rightarrow> matrix \<Rightarrow> py_error + matrix" where
  "estimator_returning M segment = Inr M"


section \<open>Facts about sums and matrices\<close>

lemma fsum_Nil: "fsum [] = Fin 0"
  by (simp add: fsum_def)

lemma fsum_Cons: "fsum (x # xs) = fadd x (fsum xs)"
  by (simp add: fsum_def)

lemma fadd_NaN_right: "fadd x NaN = NaN"
  by (cases x) simp_all

lemma fsum_NaN: "NaN \<in> set xs \<Longrightarrow> fsum xs = NaN"
  by (induction xs) (auto simp: fsum_Cons fadd_NaN_right)

lemma fadd_finite: "is_finite x \<Longrightarrow> is_finite y \<Longrightarrow> is_finite (fadd x y)"
  by (cases x; cases y) simp_all

lemma fsum_finite: "list_all is_finite xs \<Longrightarrow> is_finite (fsum xs)"
  by (induction xs) (simp_all add: fsum_Cons fsum_Nil fadd_finite)

lemma fdiv_int_finite: "is_finite x \<Longrightarrow> n \<noteq> 0 \<Longrightarrow> is_finite (fdiv_int x n)"
  by (cases x) simp_all

lemma is_nan_iff: "is_nan x \<longleftrightarrow> x = NaN"
  by (cases x) simp_all

lemma ncols_is_matrix: "is_matrix r c M \<Longrightarrow> 0 < r \<Longrightarrow> ncols M = c"
  by (cases M) (auto simp: is_matrix_def ncols_def)

lemma column_nth: "is_matrix R C W \<Longrightarrow> a < R \<Longrightarrow> column r W ! a = W ! a ! r"
  by (simp add: column_def is_matrix_def)

lemma length_column: "length (column r W) = length W"
  by (simp add: column_def)

lemma length_fill_diagonal: "length (fill_diagonal M v) = length M"
  by (simp add: fill_diagonal_def)

lemma nth_fill_diagonal: "i < length M \<Longrightarrow> fill_diagonal M v ! i = (M ! i)[i := v]"
  by (simp add: fill_diagonal_def nth_enumerate_eq)

lemma is_matrix_fill_diagonal: "is_matrix r c M \<Longrightarrow> is_matrix r c (fill_diagonal M v)"
  by (simp add: is_matrix_def list_all_length length_fill_diagonal nth_fill_diagonal)


lemma broadcast_to_same: "is_matrix r c M \<Longrightarrow> 0 < r \<Longrightarrow> broadcast_to r c M = Some M"
proof -
  assume m: "is_matrix r c M" and r: "0 < r"
  have "ncols M = c" using ncols_is_matrix[OF m r] .
  moreover have "map (\<lambda>row. if length row = c then row else replicate c (hd row)) M = M"
    using m by (intro map_idI) (simp add: is_matrix_def list_all_iff)
  ultimately show ?thesis using m by (simp add: broadcast_to_def is_matrix_def)
qed

lemma broadcast_to_mismatch:
  "is_matrix r c M \<Longrightarrow> 0 < r \<Longrightarrow> c \<noteq> c' \<Longrightarrow> c \<noteq> 1 \<Longrightarrow> broadcast_to r' c' M = None"
  using ncols_is_matrix[of r c M] by (simp add: broadcast_to_def)

lemma py_slice_inside:
  assumes "a \<le> b" "b \<le> length xs"
  shows "py_slice xs (int a) (int b) = map (\<lambda>k. xs ! k) [a..<b]"
proof -
  have "py_slice xs (int a) (int b) = take (b - a) (drop a xs)"
    using assms by (simp add: py_slice_def Let_def min_def nat_diff_distrib')
  also have "\<dots> = map (\<lambda>k. xs ! k) [a..<b]"
    using assms by (intro nth_equalityI) simp_all
  finally show ?thesis .
qed

section \<open>Stationary connectivity\<close>




section \<open>Segmentation and dynamic connectivity\<close>

subsection \<open>Window arithmetic\<close>

lemma n_windows_floor:
  "n_windows T ws ss = \<lfloor>real_of_int (T - ws) / real_of_int ss\<rfloor> + 1"
  by (simp only: n_windows_def floor_divide_of_int_eq)

lemma n_windows_pos:
  assumes "ws \<le> T" "0 < ss"
  shows "1 \<le> n_windows T ws ss"
  using assms by (simp add: n_windows_def pos_imp_zdiv_nonneg_iff)

lemma window_fits:
  assumes "ws \<le> T" "0 < ss" "int i < n_windows T ws ss"
  shows "int i * ss + ws \<le> T"
proof -
  have "int i \<le> (T - ws) div ss" using assms(3) by (simp add: n_windows_def)
  then have "int i * ss \<le> (T - ws) div ss * ss"
    using assms(2) by (simp add: mult_right_mono)
  also have "\<dots> \<le> T - ws"
  proof -
    have "0 \<le> (T - ws) mod ss" using assms(2) by simp
    moreover have "T - ws = (T - ws) div ss * ss + (T - ws) mod ss" by simp
    ultimately show ?thesis by linarith
  qed
  finally show ?thesis by simp
qed

lemma next_window_overruns:
  assumes "0 < ss"
  shows "T < n_windows T ws ss * ss + ws"
proof -
  have "(T - ws) mod ss < ss" using assms by simp
  moreover have "T - ws = (T - ws) div ss * ss + (T - ws) mod ss" by simp
  ultimately have "T - ws < (T - ws) div ss * ss + ss" by linarith
  then show ?thesis by (simp add: n_windows_def algebra_simps)
qed

lemma window_timeseries_rows:
  assumes "0 < ws" "ws \<le> int (length ts)" "0 < ss" "int i < n_windows (int (length ts)) ws ss"
  shows "window_timeseries ts ws ss i = map (\<lambda>k. ts ! k) [i * nat ss..<i * nat ss + nat ws]"
    and "i * nat ss + nat ws \<le> length ts"
proof -
  have fit: "int i * ss + ws \<le> int (length ts)"
    using window_fits[OF assms(2,3,4)] .
  have a: "int i * ss = int (i * nat ss)" using assms(3) by simp
  have b: "int i * ss + ws = int (i * nat ss + nat ws)" using assms(1,3) by simp
  show le: "i * nat ss + nat ws \<le> length ts" using fit b by linarith
  show "window_timeseries ts ws ss i = map (\<lambda>k. ts ! k) [i * nat ss..<i * nat ss + nat ws]"
    apply (simp only: window_timeseries_def b)
    apply (simp only: a)
    apply (rule py_slice_inside)
    using le by simp_all
qed

subsection \<open>The loop over the windows\<close>

text \<open>
  If every window yields a matrix that fits its slot, the loop over \<open>[k..<n]\<close> fills
  the slots from \<open>k\<close> on and leaves those below \<open>k\<close> alone.
\<close>

lemma dfc_loop_upt:
  assumes ok: "\<forall>i<n. \<exists>M. stationary_fc cm (window_timeseries ts ws ss i) = Inr M \<and>
                         broadcast_to 100 100 M = Some (slot i)"
  shows "k \<le> n \<Longrightarrow> length dfc = n \<Longrightarrow> length stamps = n \<Longrightarrow>
         dfc_loop cm ts ws ss fm (dfc, stamps) [k..<n] =
           Inr (take k dfc @ map slot [k..<n],
                take k stamps @ map (window_timestamp ws ss fm) [k..<n])"
proof (induction "n - k" arbitrary: k dfc stamps)
  case 0
  then show ?case by simp
next
  case (Suc d)
  then have kn: "k < n" by simp
  obtain M where M: "stationary_fc cm (window_timeseries ts ws ss k) = Inr M"
    "broadcast_to 100 100 M = Some (slot k)"
    using ok kn by blast
  let ?dfc = "dfc[k := slot k]"
  let ?st = "stamps[k := window_timestamp ws ss fm k]"
  have step: "dfc_loop cm ts ws ss fm (dfc, stamps) [k..<n] =
              dfc_loop cm ts ws ss fm (?dfc, ?st) [Suc k..<n]"
    using kn M by (simp add: upt_conv_Cons)
  have "d = n - Suc k" using Suc.hyps(2) by simp
  then have "dfc_loop cm ts ws ss fm (?dfc, ?st) [Suc k..<n] =
           Inr (take (Suc k) ?dfc @ map slot [Suc k..<n],
                take (Suc k) ?st @ map (window_timestamp ws ss fm) [Suc k..<n])"
    using Suc.hyps(1)[of "Suc k" ?dfc ?st] kn Suc.prems by simp
  moreover have "take (Suc k) ?dfc = take k dfc @ [slot k]"
    using kn Suc.prems by (simp add: take_Suc_conv_app_nth)
  moreover have "take (Suc k) ?st = take k stamps @ [window_timestamp ws ss fm k]"
    using kn Suc.prems by (simp add: take_Suc_conv_app_nth)
  ultimately show ?case using step kn by (simp add: upt_conv_Cons)
qed

text \<open>
  \<^verbatim>\<open>dynamic_fc\<close> returns when the estimator gives a \<open>100 \<times> 100\<close> matrix for every
  window, and raises \<^verbatim>\<open>ValueError\<close> when the first matrix does not fit its slot.
\<close>

lemma dynamic_fc_returns:
  assumes "step_size \<noteq> 0" and "0 \<le> n_windows (int (length ts)) ws step_size"
    and "\<forall>i<nat (n_windows (int (length ts)) ws step_size).
           \<exists>M. cm (window_timeseries ts ws step_size i) = Inr M \<and> is_matrix 100 100 M"
  shows "\<exists>dfc. dynamic_fc cm ts ws step_size fm =
             Inr (dfc, map (window_timestamp ws step_size fm)
                        [0..<nat (n_windows (int (length ts)) ws step_size)]) \<and>
           length dfc = nat (n_windows (int (length ts)) ws step_size) \<and>
           (\<forall>i<nat (n_windows (int (length ts)) ws step_size).
              stationary_fc cm (window_timeseries ts ws step_size i) = Inr (dfc ! i))"
proof -
  let ?n = "nat (n_windows (int (length ts)) ws step_size)"
  let ?slot = "\<lambda>i. fill_diagonal (projr (cm (window_timeseries ts ws step_size i))) (Fin 0)"
  have ok: "\<forall>i<?n. \<exists>M. stationary_fc cm (window_timeseries ts ws step_size i) = Inr M \<and>
                         broadcast_to 100 100 M = Some (?slot i)"
  proof (intro allI impI)
    fix i assume "i < ?n"
    then obtain M where M: "cm (window_timeseries ts ws step_size i) = Inr M" "is_matrix 100 100 M"
      using assms(3) by blast
    have "stationary_fc cm (window_timeseries ts ws step_size i) = Inr (?slot i)"
      using M(1) by (simp add: stationary_fc_def)
    moreover have "broadcast_to 100 100 (?slot i) = Some (?slot i)"
      using M by (intro broadcast_to_same is_matrix_fill_diagonal) simp_all
    ultimately show "\<exists>M. stationary_fc cm (window_timeseries ts ws step_size i) = Inr M \<and>
                         broadcast_to 100 100 M = Some (?slot i)" by blast
  qed
  have "dfc_loop cm ts ws step_size fm
          (replicate ?n (replicate 100 (replicate 100 (Fin 0))), replicate ?n 0) [0..<?n] =
        Inr (map ?slot [0..<?n], map (window_timestamp ws step_size fm) [0..<?n])"
    using dfc_loop_upt[OF ok, of 0 "replicate ?n (replicate 100 (replicate 100 (Fin 0)))"
        "replicate ?n 0" fm] by simp
  then have "dynamic_fc cm ts ws step_size fm =
        Inr (map ?slot [0..<?n], map (window_timestamp ws step_size fm) [0..<?n])"
    using assms(1,2) by (simp add: dynamic_fc_def Let_def)
  moreover have "\<forall>i<?n. stationary_fc cm (window_timeseries ts ws step_size i) = Inr (map ?slot [0..<?n] ! i)"
    using ok by (auto simp: stationary_fc_def split: sum.splits)
  ultimately show ?thesis by (intro exI[of _ "map ?slot [0..<?n]"]) simp
qed

lemma dynamic_fc_first_slot_fails:
  assumes "step_size \<noteq> 0" and "0 < n_windows (int (length ts)) ws step_size"
    and "cm (window_timeseries ts ws step_size 0) = Inr M"
    and "broadcast_to 100 100 (fill_diagonal M (Fin 0)) = None"
  shows "dynamic_fc cm ts ws step_size fm = Inl ValueError"
proof -
  let ?n = "nat (n_windows (int (length ts)) ws step_size)"
  have "[0..<?n] = 0 # [1..<?n]" using assms(2) by (simp add: upt_conv_Cons)
  then show ?thesis
    using assms by (simp add: dynamic_fc_def Let_def stationary_fc_def)
qed

subsection \<open>The number and the rows of the windows\<close>

text \<open>
  Claim C4. For \<open>0 < window_size \<le> T\<close> and \<open>step_size > 0\<close>, with \<open>T\<close> the number
  of rows of the time series: the number of windows is
  \<open>floor((T - window_size) / step_size) + 1\<close>, at least 1, and exactly 1 when
  \<open>window_size = T\<close>; window \<open>i\<close> consists of the rows
  \<open>i * step_size, ..., i * step_size + window_size - 1\<close>, all of them rows of the series;
  one more window would run past the end of the series, so a trailing partial window is
  dropped. \<^verbatim>\<open>dynamic_fc\<close> returns one matrix and one timestamp per window, matrix
  \<open>i\<close> being \<^verbatim>\<open>stationary_fc\<close> of window \<open>i\<close>, whenever every window's matrix has the
  shape \<open>(100, 100)\<close> of the slots.
\<close>

theorem window_segmentation:
  assumes "0 < window_size" and "window_size \<le> int (length timeseries)" and "0 < step_size"
  shows "n_windows (int (length timeseries)) window_size step_size =
           \<lfloor>real_of_int (int (length timeseries) - window_size) / real_of_int step_size\<rfloor> + 1 \<and>
         1 \<le> n_windows (int (length timeseries)) window_size step_size \<and>
         (window_size = int (length timeseries) \<longrightarrow>
            n_windows (int (length timeseries)) window_size step_size = 1) \<and>
         (\<forall>i<nat (n_windows (int (length timeseries)) window_size step_size).
            window_timeseries timeseries window_size step_size i =
              map (\<lambda>k. timeseries ! k) [i * nat step_size..<i * nat step_size + nat window_size] \<and>
            i * nat step_size + nat window_size \<le> length timeseries) \<and>
         length timeseries <
           nat (n_windows (int (length timeseries)) window_size step_size) * nat step_size +
           nat window_size \<and>
         ((\<forall>i<nat (n_windows (int (length timeseries)) window_size step_size).
             \<exists>M. cm (window_timeseries timeseries window_size step_size i) = Inr M \<and>
                 is_matrix 100 100 M) \<longrightarrow>
          (\<exists>dfc stamps. dynamic_fc cm timeseries window_size step_size frame_ms = Inr (dfc, stamps) \<and>
             length dfc = nat (n_windows (int (length timeseries)) window_size step_size) \<and>
             length stamps = nat (n_windows (int (length timeseries)) window_size step_size) \<and>
             (\<forall>i<nat (n_windows (int (length timeseries)) window_size step_size).
                stationary_fc cm (window_timeseries timeseries window_size step_size i) =
                  Inr (dfc ! i))))"
proof -
  let ?T = "int (length timeseries)"
  let ?n = "n_windows ?T window_size step_size"
  have n1: "1 \<le> ?n" using n_windows_pos[OF assms(2,3)] .
  have one: "window_size = ?T \<longrightarrow> ?n = 1" by (simp add: n_windows_def)
  have rows: "\<forall>i<nat ?n. window_timeseries timeseries window_size step_size i =
              map (\<lambda>k. timeseries ! k) [i * nat step_size..<i * nat step_size + nat window_size] \<and>
            i * nat step_size + nat window_size \<le> length timeseries"
    using window_timeseries_rows[OF assms] by simp
  have "?T < ?n * step_size + window_size"
    using next_window_overruns[OF assms(3)] .
  moreover have "?n * step_size + window_size = int (nat ?n * nat step_size + nat window_size)"
    using n1 assms(1,3) by simp
  ultimately have over: "length timeseries < nat ?n * nat step_size + nat window_size"
    by linarith
  have run: "(\<forall>i<nat ?n. \<exists>M. cm (window_timeseries timeseries window_size step_size i) = Inr M \<and>
                 is_matrix 100 100 M) \<longrightarrow>
          (\<exists>dfc stamps. dynamic_fc cm timeseries window_size step_size frame_ms = Inr (dfc, stamps) \<and>
             length dfc = nat ?n \<and> length stamps = nat ?n \<and>
             (\<forall>i<nat ?n. stationary_fc cm (window_timeseries timeseries window_size step_size i) =
                  Inr (dfc ! i)))"
  proof
    assume lib: "\<forall>i<nat ?n. \<exists>M. cm (window_timeseries timeseries window_size step_size i) = Inr M \<and>
                 is_matrix 100 100 M"
    have "step_size \<noteq> 0" "0 \<le> ?n" using assms(3) n1 by simp_all
    from dynamic_fc_returns[OF this lib, of frame_ms]
    obtain dfc where "dynamic_fc cm timeseries window_size step_size frame_ms =
             Inr (dfc, map (window_timestamp window_size step_size frame_ms) [0..<nat ?n])"
      "length dfc = nat ?n"
      "\<forall>i<nat ?n. stationary_fc cm (window_timeseries timeseries window_size step_size i) = Inr (dfc ! i)"
      by blast
    then show "\<exists>dfc stamps. dynamic_fc cm timeseries window_size step_size frame_ms = Inr (dfc, stamps) \<and>
             length dfc = nat ?n \<and> length stamps = nat ?n \<and>
             (\<forall>i<nat ?n. stationary_fc cm (window_timeseries timeseries window_size step_size i) =
                  Inr (dfc ! i))"
      by (intro exI[of _ dfc] exI[of _ "map (window_timestamp window_size step_size frame_ms) [0..<nat ?n]"]) simp
  qed
  show ?thesis
    using n_windows_floor[of ?T window_size step_size] n1 one rows over run by blast
qed

text \<open>
  The theorem at 10 samples of 3 regions with \<open>window_size = 5\<close> and \<open>step_size = 5\<close>:
  two windows, the rows 0 to 4 and the rows 5 to 9. With 100 samples, \<open>window_size = 44\<close>
  and \<open>step_size = 2\<close> there are 29 windows.
\<close>

theorem window_segmentation_witness:
  "n_windows 10 5 5 = 2 \<and>
   window_timeseries [[Fin 0, Fin 10, Fin 20], [Fin 1, Fin 11, Fin 21], [Fin 2, Fin 12, Fin 22],
       [Fin 3, Fin 13, Fin 23], [Fin 4, Fin 14, Fin 24], [Fin 5, Fin 15, Fin 25],
       [Fin 6, Fin 16, Fin 26], [Fin 7, Fin 17, Fin 27], [Fin 8, Fin 18, Fin 28],
       [Fin 9, Fin 19, Fin 29]] 5 5 0 =
     [[Fin 0, Fin 10, Fin 20], [Fin 1, Fin 11, Fin 21], [Fin 2, Fin 12, Fin 22],
         [Fin 3, Fin 13, Fin 23], [Fin 4, Fin 14, Fin 24]] \<and>
   window_timeseries [[Fin 0, Fin 10, Fin 20], [Fin 1, Fin 11, Fin 21], [Fin 2, Fin 12, Fin 22],
       [Fin 3, Fin 13, Fin 23], [Fin 4, Fin 14, Fin 24], [Fin 5, Fin 15, Fin 25],
       [Fin 6, Fin 16, Fin 26], [Fin 7, Fin 17, Fin 27], [Fin 8, Fin 18, Fin 28],
       [Fin 9, Fin 19, Fin 29]] 5 5 1 =
     [[Fin 5, Fin 15, Fin 25], [Fin 6, Fin 16, Fin 26], [Fin 7, Fin 17, Fin 27],
         [Fin 8, Fin 18, Fin 28], [Fin 9, Fin 19, Fin 29]] \<and>
   n_windows 100 44 2 = 29"
proof -
  let ?ts = "[[Fin 0, Fin 10, Fin 20], [Fin 1, Fin 11, Fin 21], [Fin 2, Fin 12, Fin 22],
      [Fin 3, Fin 13, Fin 23], [Fin 4, Fin 14, Fin 24], [Fin 5, Fin 15, Fin 25],
      [Fin 6, Fin 16, Fin 26], [Fin 7, Fin 17, Fin 27], [Fin 8, Fin 18, Fin 28],
      [Fin 9, Fin 19, Fin 29]]"
  have n: "n_windows (int (length ?ts)) 5 5 = 2" by (simp add: n_windows_def)
  have "\<forall>i<nat (n_windows (int (length ?ts)) 5 5).
          window_timeseries ?ts 5 5 i = map (\<lambda>k. ?ts ! k) [i * nat 5..<i * nat 5 + nat 5]"
    using window_segmentation[of 5 ?ts 5] by simp
  then have w: "\<And>i. i < 2 \<Longrightarrow> window_timeseries ?ts 5 5 i = map (\<lambda>k. ?ts ! k) [i * 5..<i * 5 + 5]"
    unfolding n by simp
  have "window_timeseries ?ts 5 5 0 = map (\<lambda>k. ?ts ! k) [0..<5]" using w[of 0] by simp
  moreover have "window_timeseries ?ts 5 5 1 = map (\<lambda>k. ?ts ! k) [5..<10]" using w[of 1] by simp
  moreover have "[0..<5] = [0, 1, 2, 3, 4]" "[5..<10] = [5, 6, 7, 8, 9 :: nat]"
    by (simp_all add: upt_rec)
  moreover have "n_windows 10 5 5 = 2" "n_windows 100 44 2 = 29" by (simp_all add: n_windows_def)
  ultimately show ?thesis by (simp add: eval_nat_numeral)
qed

subsection \<open>Parameters that are not valid\<close>

lemma div_eq_minus_one:
  fixes a p :: int
  assumes "0 < p" "- p \<le> a" "a < 0"
  shows "a div p = - 1"
  using assms by (intro int_div_pos_eq[where r = "a + p"]) simp_all

lemma div_less_minus_one:
  fixes a p :: int
  assumes "0 < p" "a < - p"
  shows "a div p < - 1"
proof -
  have "0 \<le> a mod p" using assms(1) by simp
  moreover have "a = a div p * p + a mod p" by simp
  ultimately have "a div p * p \<le> a" by linarith
  then have lt: "a div p * p < - 1 * p" using assms(2) by simp
  show ?thesis
  proof (rule ccontr)
    assume "\<not> a div p < - 1"
    then have "- 1 \<le> a div p" by simp
    then have "- 1 * p \<le> a div p * p"
      using assms(1) by (intro mult_right_mono) simp_all
    then show False using lt by simp
  qed
qed

lemma div_negative_step:
  fixes d step_size :: int
  shows "d div step_size = (- d) div (- step_size)"
  by simp

text \<open>
  The number of windows for the parameters that are not valid: with a positive step and
  \<open>window_size > T\<close>, and with a negative step.
\<close>

lemma n_windows_invalid:
  shows "0 < step_size \<Longrightarrow> T < window_size \<Longrightarrow> window_size - T \<le> step_size \<Longrightarrow>
           n_windows T window_size step_size = 0"
    and "0 < step_size \<Longrightarrow> step_size < window_size - T \<Longrightarrow>
           n_windows T window_size step_size < 0"
    and "step_size < 0 \<Longrightarrow> - step_size < T - window_size \<Longrightarrow>
           n_windows T window_size step_size < 0"
    and "step_size < 0 \<Longrightarrow> 0 < T - window_size \<Longrightarrow> T - window_size \<le> - step_size \<Longrightarrow>
           n_windows T window_size step_size = 0"
    and "step_size < 0 \<Longrightarrow> T \<le> window_size \<Longrightarrow>
           1 \<le> n_windows T window_size step_size"
proof -
  show "n_windows T window_size step_size = 0"
    if "0 < step_size" "T < window_size" "window_size - T \<le> step_size"
  proof -
    have "(T - window_size) div step_size = - 1"
      using that by (intro div_eq_minus_one) simp_all
    then show ?thesis by (simp add: n_windows_def)
  qed
  show "n_windows T window_size step_size < 0"
    if "0 < step_size" "step_size < window_size - T"
  proof -
    have "(T - window_size) div step_size < - 1"
      using that by (intro div_less_minus_one) simp_all
    then show ?thesis by (simp add: n_windows_def)
  qed
  show "n_windows T window_size step_size < 0"
    if "step_size < 0" "- step_size < T - window_size"
  proof -
    have "(- (T - window_size)) div (- step_size) < - 1"
      using that by (intro div_less_minus_one) simp_all
    then have "(T - window_size) div step_size < - 1"
      by (simp only: div_negative_step[symmetric])
    then show ?thesis by (simp add: n_windows_def)
  qed
  show "n_windows T window_size step_size = 0"
    if "step_size < 0" "0 < T - window_size" "T - window_size \<le> - step_size"
  proof -
    have "(- (T - window_size)) div (- step_size) = - 1"
      using that by (intro div_eq_minus_one) simp_all
    then have "(T - window_size) div step_size = - 1"
      by (simp only: div_negative_step[symmetric])
    then show ?thesis by (simp add: n_windows_def)
  qed
  show "1 \<le> n_windows T window_size step_size"
    if "step_size < 0" "T \<le> window_size"
  proof -
    have "0 \<le> (- (T - window_size)) div (- step_size)"
      using that by (intro pos_imp_zdiv_nonneg_iff[THEN iffD2]) simp_all
    then have "0 \<le> (T - window_size) div step_size"
      by (simp only: div_negative_step[symmetric])
    then show ?thesis by (simp add: n_windows_def)
  qed
qed

text \<open>
  Claim C8, amended. \<^verbatim>\<open>dynamic_fc\<close> validates neither parameter; with \<open>T\<close> the
  number of rows of the series it behaves as follows. With \<open>step_size = 0\<close> it raises
  \<^verbatim>\<open>ZeroDivisionError\<close>. With \<open>step_size > 0\<close> and \<open>window_size > T\<close> it computes no
  window: it returns the empty stack and no timestamps when
  \<open>window_size - T \<le> step_size\<close>, as for \<open>window_size = T + 1\<close>, and raises
  \<^verbatim>\<open>ValueError\<close> for the negative dimension otherwise. With \<open>step_size < 0\<close> it raises
  \<^verbatim>\<open>ValueError\<close> when \<open>T - window_size > - step_size\<close>, returns the empty stack and
  no timestamps when \<open>0 < T - window_size \<le> - step_size\<close>, and for \<open>window_size \<ge> T\<close>
  goes on to compute \<open>n_windows \<ge> 1\<close> windows, which it returns, one matrix and one
  timestamp each, when their matrices have the shape of the slots.
\<close>

theorem dynamic_fc_unvalidated:
  "(step_size = 0 \<longrightarrow>
      dynamic_fc cm timeseries window_size step_size frame_ms = Inl ZeroDivisionError) \<and>
   (0 < step_size \<and> int (length timeseries) < window_size \<and>
    window_size - int (length timeseries) \<le> step_size \<longrightarrow>
      dynamic_fc cm timeseries window_size step_size frame_ms = Inr ([], [])) \<and>
   (0 < step_size \<and> step_size < window_size - int (length timeseries) \<longrightarrow>
      dynamic_fc cm timeseries window_size step_size frame_ms = Inl ValueError) \<and>
   (step_size < 0 \<and> - step_size < int (length timeseries) - window_size \<longrightarrow>
      dynamic_fc cm timeseries window_size step_size frame_ms = Inl ValueError) \<and>
   (step_size < 0 \<and> 0 < int (length timeseries) - window_size \<and>
    int (length timeseries) - window_size \<le> - step_size \<longrightarrow>
      dynamic_fc cm timeseries window_size step_size frame_ms = Inr ([], [])) \<and>
   (step_size < 0 \<and> int (length timeseries) \<le> window_size \<longrightarrow>
      1 \<le> n_windows (int (length timeseries)) window_size step_size \<and>
      ((\<forall>i<nat (n_windows (int (length timeseries)) window_size step_size).
          \<exists>M. cm (window_timeseries timeseries window_size step_size i) = Inr M \<and>
              is_matrix 100 100 M) \<longrightarrow>
       (\<exists>dfc stamps.
          dynamic_fc cm timeseries window_size step_size frame_ms = Inr (dfc, stamps) \<and>
          length dfc = nat (n_windows (int (length timeseries)) window_size step_size) \<and>
          length stamps = nat (n_windows (int (length timeseries)) window_size step_size))))"
proof -
  let ?T = "int (length timeseries)"
  let ?n = "n_windows ?T window_size step_size"
  let ?run = "dynamic_fc cm timeseries window_size step_size frame_ms"
  have c1: "step_size = 0 \<longrightarrow> ?run = Inl ZeroDivisionError"
    by (simp add: dynamic_fc_def)
  have c2: "0 < step_size \<and> ?T < window_size \<and> window_size - ?T \<le> step_size \<longrightarrow>
              ?run = Inr ([], [])"
    using n_windows_invalid(1)[of step_size ?T window_size]
    by (auto simp: dynamic_fc_def Let_def)
  have c3: "0 < step_size \<and> step_size < window_size - ?T \<longrightarrow> ?run = Inl ValueError"
    using n_windows_invalid(2)[of step_size window_size ?T]
    by (auto simp: dynamic_fc_def Let_def)
  have c4: "step_size < 0 \<and> - step_size < ?T - window_size \<longrightarrow> ?run = Inl ValueError"
    using n_windows_invalid(3)[of step_size ?T window_size]
    by (auto simp: dynamic_fc_def Let_def)
  have c5: "step_size < 0 \<and> 0 < ?T - window_size \<and> ?T - window_size \<le> - step_size \<longrightarrow>
              ?run = Inr ([], [])"
    using n_windows_invalid(4)[of step_size ?T window_size]
    by (auto simp: dynamic_fc_def Let_def)
  have c6: "step_size < 0 \<and> ?T \<le> window_size \<longrightarrow>
      1 \<le> ?n \<and>
      ((\<forall>i<nat ?n. \<exists>M. cm (window_timeseries timeseries window_size step_size i) = Inr M \<and>
              is_matrix 100 100 M) \<longrightarrow>
       (\<exists>dfc stamps. ?run = Inr (dfc, stamps) \<and> length dfc = nat ?n \<and>
          length stamps = nat ?n))"
  proof (intro impI conjI)
    assume a: "step_size < 0 \<and> ?T \<le> window_size"
    then show n1: "1 \<le> ?n" using n_windows_invalid(5)[of step_size ?T window_size] by simp
    assume lib: "\<forall>i<nat ?n. \<exists>M. cm (window_timeseries timeseries window_size step_size i) = Inr M \<and>
              is_matrix 100 100 M"
    have "step_size \<noteq> 0" "0 \<le> ?n" using a n1 by simp_all
    from dynamic_fc_returns[OF this lib, of frame_ms]
    obtain dfc where "?run = Inr (dfc, map (window_timestamp window_size step_size frame_ms)
                        [0..<nat ?n])" "length dfc = nat ?n"
      by blast
    then show "\<exists>dfc stamps. ?run = Inr (dfc, stamps) \<and> length dfc = nat ?n \<and>
          length stamps = nat ?n"
      by (intro exI[of _ dfc]
          exI[of _ "map (window_timestamp window_size step_size frame_ms) [0..<nat ?n]"]) simp
  qed
  show ?thesis
    using c1 c2 c3 c4 c5 c6 by (intro conjI)
qed

text \<open>
  Claim C8 as stated fails: with 3 samples, \<open>window_size = 4 = T + 1\<close> and
  \<open>step_size = 1\<close> the call returns the empty result instead of failing, and so it does
  with the negative \<open>step_size = -1\<close> and \<open>window_size = 2\<close>.
\<close>

theorem dynamic_fc_unvalidated_counterexample:
  "dynamic_fc Inr [[Fin 0], [Fin 1], [Fin 2]] 4 1 900 = Inr ([], []) \<and>
   dynamic_fc Inr [[Fin 0], [Fin 1], [Fin 2]] 2 (- 1) 900 = Inr ([], [])"
  by (simp add: dynamic_fc_def n_windows_def)

text \<open>
  The theorem of C8 at 3 samples: zero step; \<open>window_size = 5\<close> and
  \<open>window_size = 6\<close> with \<open>step_size = 2\<close>; with \<open>step_size = -1\<close> the window sizes
  1, 2 and, with an estimator that returns a \<open>100 \<times> 100\<close> matrix, 3.
\<close>

theorem dynamic_fc_unvalidated_witness:
  "dynamic_fc Inr [[Fin 0], [Fin 1], [Fin 2]] 5 0 900 = Inl ZeroDivisionError \<and>
   dynamic_fc Inr [[Fin 0], [Fin 1], [Fin 2]] 5 2 900 = Inr ([], []) \<and>
   dynamic_fc Inr [[Fin 0], [Fin 1], [Fin 2]] 6 2 900 = Inl ValueError \<and>
   dynamic_fc Inr [[Fin 0], [Fin 1], [Fin 2]] 1 (- 1) 900 = Inl ValueError \<and>
   dynamic_fc Inr [[Fin 0], [Fin 1], [Fin 2]] 2 (- 1) 900 = Inr ([], []) \<and>
   (\<exists>dfc stamps.
      dynamic_fc (estimator_returning (replicate 100 (replicate 100 (Fin 0))))
        [[Fin 0], [Fin 1], [Fin 2]] 3 (- 1) 900 = Inr (dfc, stamps) \<and>
      length dfc = 1 \<and> length stamps = 1)"
proof -
  let ?ts = "[[Fin 0], [Fin 1], [Fin 2]]"
  let ?cm = "estimator_returning (replicate 100 (replicate 100 (Fin 0)))"
  have n: "n_windows (int (length ?ts)) 3 (- 1) = 1" by (simp add: n_windows_def)
  have lib: "\<forall>i<nat (n_windows (int (length ?ts)) 3 (- 1)).
          \<exists>M. ?cm (window_timeseries ?ts 3 (- 1) i) = Inr M \<and> is_matrix 100 100 M"
    by (simp add: estimator_returning_def is_matrix_def list_all_length)
  have "\<exists>dfc stamps. dynamic_fc ?cm ?ts 3 (- 1) 900 = Inr (dfc, stamps) \<and>
      length dfc = nat (n_windows (int (length ?ts)) 3 (- 1)) \<and>
      length stamps = nat (n_windows (int (length ?ts)) 3 (- 1))"
    using dynamic_fc_unvalidated[of "- 1" ?cm ?ts 3 900] lib by simp
  then have last: "\<exists>dfc stamps. dynamic_fc ?cm ?ts 3 (- 1) 900 = Inr (dfc, stamps) \<and>
      length dfc = 1 \<and> length stamps = 1"
    unfolding n by simp
  have "dynamic_fc Inr ?ts 5 0 900 = Inl ZeroDivisionError"
    using dynamic_fc_unvalidated[of 0 Inr ?ts 5 900] by simp
  moreover have "dynamic_fc Inr ?ts 5 2 900 = Inr ([], [])"
    using dynamic_fc_unvalidated[of 2 Inr ?ts 5 900] by simp
  moreover have "dynamic_fc Inr ?ts 6 2 900 = Inl ValueError"
    using dynamic_fc_unvalidated[of 2 Inr ?ts 6 900] by simp
  moreover have "dynamic_fc Inr ?ts 1 (- 1) 900 = Inl ValueError"
    using dynamic_fc_unvalidated[of "- 1" Inr ?ts 1 900] by simp
  moreover have "dynamic_fc Inr ?ts 2 (- 1) 900 = Inr ([], [])"
    using dynamic_fc_unvalidated[of "- 1" Inr ?ts 2 900] by simp
  ultimately show ?thesis using last by blast
qed

subsection \<open>The shape of the slots\<close>

text \<open>
  Claim C2 does not hold of the code. The slots of \<^verbatim>\<open>dfc_matrix\<close> are
  \<open>100 \<times> 100\<close> whatever the number of regions: when the matrix of the first window
  is \<open>R \<times> R\<close> with \<open>R \<ge> 2\<close> and \<open>R \<noteq> 100\<close>, the assignment to slot 0 raises
  \<^verbatim>\<open>ValueError\<close> and no stack is returned.
\<close>

theorem dynamic_fc_fixed_100:
  assumes "0 < window_size" and "window_size \<le> int (length timeseries)" and "0 < step_size"
    and "cm (window_timeseries timeseries window_size step_size 0) = Inr M"
    and "is_matrix R R M" and "2 \<le> R" and "R \<noteq> 100"
  shows "dynamic_fc cm timeseries window_size step_size frame_ms = Inl ValueError"
proof -
  have "is_matrix R R (fill_diagonal M (Fin 0))"
    using assms(5) by (rule is_matrix_fill_diagonal)
  then have "broadcast_to 100 100 (fill_diagonal M (Fin 0)) = None"
    using assms(6,7) by (intro broadcast_to_mismatch[where r = R and c = R]) simp_all
  moreover have "0 < n_windows (int (length timeseries)) window_size step_size"
    using n_windows_pos[OF assms(2,3)] by simp
  ultimately show ?thesis
    using assms(3,4) by (intro dynamic_fc_first_slot_fails) simp_all
qed

text \<open>
  The theorem at 3 samples of 2 regions, \<open>window_size = 2\<close>, \<open>step_size = 1\<close>, with an
  estimator that returns a \<open>2 \<times> 2\<close> matrix.
\<close>

theorem dynamic_fc_fixed_100_witness:
  "dynamic_fc (\<lambda>segment. Inr [[Fin 1, Fin (1/2)], [Fin (1/2), Fin 1]])
     [[Fin 0, Fin 1], [Fin 1, Fin 0], [Fin 2, Fin 3]] 2 1 900 = Inl ValueError"
  by (rule dynamic_fc_fixed_100[where R = 2 and M = "[[Fin 1, Fin (1/2)], [Fin (1/2), Fin 1]]"])
     (simp_all add: is_matrix_def)

section \<open>Global connectivity\<close>

lemma dynamic_gfc_nth:
  assumes "i < length D" "is_matrix R C (D ! i)" "0 < R" "r < C"
  shows "dynamic_gfc D ! i ! r = fdiv_int (fsum (column r (D ! i))) (int C - 1)"
  using assms by (simp add: dynamic_gfc_def sum_axis0_def ncols_is_matrix)

text \<open>
  Claim C3, amended. If the matrix of window \<open>i\<close> has NaN exactly in row \<open>k\<close> and
  column \<open>k\<close> off the diagonal (\<open>R \<ge> 2\<close>), the GlobalVector of window \<open>i\<close> is NaN at
  every position: each column holds the NaN of row \<open>k\<close>, and column \<open>k\<close> those of the
  other rows. Every window whose matrix has only finite entries has only finite
  aggregates.
\<close>

theorem dynamic_gfc_nan_window:
  assumes "i < length dfc_matrix" and "is_matrix R R (dfc_matrix ! i)" and "2 \<le> R" and "k < R"
    and "\<forall>a<R. \<forall>b<R. is_nan (dfc_matrix ! i ! a ! b) \<longleftrightarrow> (a = k \<or> b = k) \<and> a \<noteq> b"
  shows "(\<forall>r<R. dynamic_gfc dfc_matrix ! i ! r = NaN) \<and>
         (\<forall>j<length dfc_matrix.
            is_matrix R R (dfc_matrix ! j) \<and>
            (\<forall>a<R. \<forall>b<R. is_finite (dfc_matrix ! j ! a ! b)) \<longrightarrow>
            (\<forall>r<R. is_finite (dynamic_gfc dfc_matrix ! j ! r)))"
proof -
  let ?W = "dfc_matrix ! i"
  have R0: "0 < R" using assms(3) by simp
  have lenW: "length ?W = R" using assms(2) by (simp add: is_matrix_def)
  have nan: "dynamic_gfc dfc_matrix ! i ! r = NaN" if r: "r < R" for r
  proof -
    obtain a where a: "a < R" "(a = k \<or> r = k) \<and> a \<noteq> r"
    proof (cases "r = k")
      case True
      have "\<exists>a<R. a \<noteq> k"
      proof (cases "k = 0")
        case True
        then have "1 < R \<and> (1::nat) \<noteq> k" using assms(3) by simp
        then show ?thesis by blast
      next
        case False
        then have "0 < R \<and> (0::nat) \<noteq> k" using assms(3) by simp
        then show ?thesis by blast
      qed
      then show ?thesis using that True by blast
    next
      case False
      then show ?thesis using that[of k] assms(4) by simp
    qed
    have "?W ! a ! r = NaN" using assms(5) a r by (simp add: is_nan_iff)
    then have "column r ?W ! a = NaN" using column_nth[OF assms(2) a(1)] by simp
    moreover have "a < length (column r ?W)" using a(1) lenW by (simp add: length_column)
    ultimately have "NaN \<in> set (column r ?W)" by (metis nth_mem)
    then have "fsum (column r ?W) = NaN" by (rule fsum_NaN)
    then show ?thesis using dynamic_gfc_nth[OF assms(1,2) R0 r] by simp
  qed
  have fin: "is_finite (dynamic_gfc dfc_matrix ! j ! r)"
    if j: "j < length dfc_matrix" and m: "is_matrix R R (dfc_matrix ! j)"
      and f: "\<forall>a<R. \<forall>b<R. is_finite (dfc_matrix ! j ! a ! b)" and r: "r < R" for j r
  proof -
    have len: "length (dfc_matrix ! j) = R" using m by (simp add: is_matrix_def)
    have "list_all is_finite (column r (dfc_matrix ! j))"
      unfolding list_all_length
      using f r len column_nth[OF m] by (simp add: length_column)
    then have "is_finite (fsum (column r (dfc_matrix ! j)))" by (rule fsum_finite)
    moreover have "int R - 1 \<noteq> 0" using assms(3) by simp
    ultimately show ?thesis
      using dynamic_gfc_nth[OF j m R0 r] by (simp add: fdiv_int_finite)
  qed
  show ?thesis using nan fin by blast
qed

text \<open>
  Claim C3 as stated fails: with NaN in row 1 and column 1 of a \<open>3 \<times> 3\<close> matrix the
  aggregates of regions 0 and 2 are NaN as well.
\<close>

theorem dynamic_gfc_nan_window_counterexample:
  "dynamic_gfc [[[Fin 0, NaN, Fin (1/2)], [NaN, Fin 0, NaN], [Fin (1/2), NaN, Fin 0]]] =
     [[NaN, NaN, NaN]]"
  by (simp add: dynamic_gfc_def sum_axis0_def column_def ncols_def fsum_def upt_rec)

text \<open>
  The theorem of C3 at a stack of two windows, the first with NaN in row and column 1,
  the second finite.
\<close>

theorem dynamic_gfc_nan_window_witness:
  "dynamic_gfc [[[Fin 0, NaN, Fin (1/2)], [NaN, Fin 0, NaN], [Fin (1/2), NaN, Fin 0]],
                [[Fin 0, Fin (1/4), Fin (1/2)], [Fin (1/4), Fin 0, Fin 1], [Fin (1/2), Fin 1, Fin 0]]]
     ! 0 ! 2 = NaN \<and>
   is_finite (dynamic_gfc [[[Fin 0, NaN, Fin (1/2)], [NaN, Fin 0, NaN], [Fin (1/2), NaN, Fin 0]],
                [[Fin 0, Fin (1/4), Fin (1/2)], [Fin (1/4), Fin 0, Fin 1], [Fin (1/2), Fin 1, Fin 0]]]
     ! 1 ! 2)"
proof -
  let ?D = "[[[Fin 0, NaN, Fin (1/2)], [NaN, Fin 0, NaN], [Fin (1/2), NaN, Fin 0]],
                [[Fin 0, Fin (1/4), Fin (1/2)], [Fin (1/4), Fin 0, Fin 1], [Fin (1/2), Fin 1, Fin 0]]]"
  have three: "\<And>a :: nat. a < 3 \<longleftrightarrow> a = 0 \<or> a = 1 \<or> a = 2" by auto
  have 1: "0 < length ?D" by simp
  have 2: "is_matrix 3 3 (?D ! 0)" by (simp add: is_matrix_def)
  have 3: "(2::nat) \<le> 3" "(1::nat) < 3" by simp_all
  have 4: "\<forall>a<3. \<forall>b<3. is_nan (?D ! 0 ! a ! b) \<longleftrightarrow> (a = 1 \<or> b = 1) \<and> a \<noteq> b"
    by (auto simp: three)
  have 5: "1 < length ?D" "is_matrix 3 3 (?D ! 1)" by (simp_all add: is_matrix_def)
  have 6: "\<forall>a<3. \<forall>b<3. is_finite (?D ! 1 ! a ! b)" by (auto simp: three)
  from dynamic_gfc_nan_window[OF 1 2 3 4] 5 6
  have "\<forall>r<3. dynamic_gfc ?D ! 0 ! r = NaN" "\<forall>r<3. is_finite (dynamic_gfc ?D ! 1 ! r)"
    by blast+
  then show ?thesis by simp
qed

section \<open>Volume reconstruction\<close>

subsection \<open>Substitution on one element\<close>

lemma relabel_miss_aux:
  "(\<forall>p. k \<le> p \<and> p < k + length vals \<longrightarrow> x \<noteq> Fin (real p)) \<Longrightarrow>
   foldl (\<lambda>y (parcel, gfc_value). if y = Fin (real parcel) then gfc_value else y)
     x (enumerate k vals) = x"
proof (induction vals arbitrary: k)
  case Nil
  then show ?case by simp
next
  case (Cons v vs)
  have "x \<noteq> Fin (real k)" using Cons.prems by simp
  moreover have "\<forall>p. Suc k \<le> p \<and> p < Suc k + length vs \<longrightarrow> x \<noteq> Fin (real p)"
    using Cons.prems by simp
  ultimately show ?case using Cons.IH[of "Suc k"] by simp
qed

lemma relabel_hit_aux:
  "k \<le> l \<Longrightarrow> l < k + length vals \<Longrightarrow>
   (\<forall>p. l < p \<and> p < k + length vals \<longrightarrow> vals ! (l - k) \<noteq> Fin (real p)) \<Longrightarrow>
   foldl (\<lambda>y (parcel, gfc_value). if y = Fin (real parcel) then gfc_value else y)
     (Fin (real l)) (enumerate k vals) = vals ! (l - k)"
proof (induction vals arbitrary: k)
  case Nil
  then show ?case by simp
next
  case (Cons v vs)
  show ?case
  proof (cases "l = k")
    case True
    have "\<forall>p. Suc k \<le> p \<and> p < Suc k + length vs \<longrightarrow> v \<noteq> Fin (real p)"
      using Cons.prems True by auto
    then show ?thesis using True relabel_miss_aux[of "Suc k" vs v] by simp
  next
    case False
    then have lt: "Suc k \<le> l" using Cons.prems by simp
    have nth: "(v # vs) ! (l - k) = vs ! (l - Suc k)"
      using lt by (metis Suc_diff_le diff_Suc_Suc nth_Cons_Suc)
    have "foldl (\<lambda>y (parcel, gfc_value). if y = Fin (real parcel) then gfc_value else y)
            (Fin (real l)) (enumerate (Suc k) vs) = vs ! (l - Suc k)"
      using Cons.IH[of "Suc k"] Cons.prems lt nth by auto
    then show ?thesis using False nth by simp
  qed
qed

lemma relabel_miss:
  "(\<forall>p. 1 \<le> p \<and> p \<le> length vals \<longrightarrow> x \<noteq> Fin (real p)) \<Longrightarrow> relabel vals x = x"
  unfolding relabel_def by (rule relabel_miss_aux) auto

lemma relabel_hit:
  assumes "1 \<le> l" "l \<le> length vals"
    and "\<forall>p. l < p \<and> p \<le> length vals \<longrightarrow> vals ! (l - 1) \<noteq> Fin (real p)"
  shows "relabel vals (Fin (real l)) = vals ! (l - 1)"
  unfolding relabel_def using assms by (intro relabel_hit_aux) auto

lemma relabel_label:
  assumes "1 \<le> l" "l \<le> int (length vals)"
    and "\<forall>p. l < int p \<and> p \<le> length vals \<longrightarrow> vals ! nat (l - 1) \<noteq> Fin (real p)"
  shows "relabel vals (Fin (real_of_int l)) = vals ! nat (l - 1)"
proof -
  have eq: "real_of_int l = real (nat l)" using assms(1) by simp
  have idx: "nat (l - 1) = nat l - 1" by simp
  have "1 \<le> nat l" "nat l \<le> length vals" using assms(1,2) by simp_all
  moreover have "\<forall>p. nat l < p \<and> p \<le> length vals \<longrightarrow> vals ! (nat l - 1) \<noteq> Fin (real p)"
  proof (intro allI impI)
    fix p assume "nat l < p \<and> p \<le> length vals"
    then have "l < int p \<and> p \<le> length vals" by linarith
    then show "vals ! (nat l - 1) \<noteq> Fin (real p)" using assms(3) idx by metis
  qed
  ultimately have "relabel vals (Fin (real (nat l))) = vals ! (nat l - 1)"
    by (rule relabel_hit)
  then show ?thesis by (simp only: eq idx)
qed

lemma relabel_outside:
  assumes "l < 1 \<or> int (length vals) < l"
  shows "relabel vals (Fin (real_of_int l)) = Fin (real_of_int l)"
proof (rule relabel_miss, intro allI impI)
  fix p assume "1 \<le> p \<and> p \<le> length vals"
  then have "l \<noteq> int p" using assms by auto
  then have "real_of_int l \<noteq> real p"
    by (metis of_int_of_nat_eq of_int_eq_iff)
  then show "Fin (real_of_int l) \<noteq> Fin (real p)" by simp
qed

lemma in_unit_no_label: "in_unit v \<or> is_nan v \<Longrightarrow> 2 \<le> p \<Longrightarrow> v \<noteq> Fin (real p)"
  by (cases v) auto

lemma relabel_fun:
  "relabel vals = (\<lambda>x. foldl (\<lambda>y (parcel, gfc_value). if y = Fin (real parcel) then gfc_value else y)
       x (enumerate 1 vals))"
  by (simp add: fun_eq_iff relabel_def)

subsection \<open>The loop over the frames\<close>

lemma mask_fold:
  "foldl (\<lambda>h' (parcel, gfc_value). mask_assign a parcel gfc_value h') h ps =
   h\<lparr>arrays := (arrays h)(a := (arrays h a)
      \<lparr>data := map (\<lambda>x. foldl (\<lambda>y (parcel, gfc_value). if y = Fin (real parcel) then gfc_value else y) x ps)
                 (data (arrays h a))\<rparr>)\<rparr>"
proof (induction ps arbitrary: h)
  case Nil
  then show ?case by simp
next
  case (Cons pv ps)
  obtain p v where pv: "pv = (p, v)" by (cases pv)
  show ?case
    unfolding pv
    apply (simp add: Cons.IH)
    apply (simp add: mask_assign_def comp_def fun_eq_iff cong: if_cong)
    done
qed

lemma frame_step_eq:
  assumes "a_v \<noteq> fresh h"
  shows "frame_step a_t gm a_v n h i =
    h\<lparr>arrays := (arrays h)(fresh h := frame_of (arrays h a_t) (gm ! i),
         a_v := (arrays h a_v)\<lparr>data := map (\<lambda>k. if k mod n = i
              then map (relabel (gm ! i)) (data (arrays h a_t)) ! (k div n)
              else data (arrays h a_v) ! k) [0..<length (data (arrays h a_v))]\<rparr>),
      fresh := Suc (fresh h)\<rparr>"
  using assms
  by (simp add: frame_step_def alloc_def mask_fold set_frame_def frame_of_def relabel_fun Let_def
      cong: if_cong)

lemma frame_step_facts:
  assumes "a_v \<noteq> fresh h"
  shows "fresh (frame_step a_t gm a_v n h i) = Suc (fresh h)"
    and "a \<noteq> fresh h \<Longrightarrow> a \<noteq> a_v \<Longrightarrow> arrays (frame_step a_t gm a_v n h i) a = arrays h a"
    and "shape (arrays (frame_step a_t gm a_v n h i) a_v) = shape (arrays h a_v)"
    and "data (arrays (frame_step a_t gm a_v n h i) a_v) =
          map (\<lambda>k. if k mod n = i
              then map (relabel (gm ! i)) (data (arrays h a_t)) ! (k div n)
              else data (arrays h a_v) ! k) [0..<length (data (arrays h a_v))]"
  using assms by (simp_all add: frame_step_eq)

lemma frames_loop:
  assumes "a_t < fresh h1" "a_v < fresh h1" "a_t \<noteq> a_v"
  shows "m \<le> n \<Longrightarrow> frames_inv a_t gm a_v n h1 m (foldl (frame_step a_t gm a_v n) h1 [0..<m])"
proof (induction m)
  case 0
  then show ?case by (simp add: frames_inv_def)
next
  case (Suc m)
  let ?h = "foldl (frame_step a_t gm a_v n) h1 [0..<m]"
  let ?h' = "frame_step a_t gm a_v n ?h m"
  have inv: "frames_inv a_t gm a_v n h1 m ?h" using Suc by simp
  have fr: "fresh ?h = fresh h1 + m" using inv by (simp add: frames_inv_def)
  have av: "a_v \<noteq> fresh ?h" using fr assms(2) by simp
  have tmpl: "arrays ?h a_t = arrays h1 a_t"
    using inv assms(1,3) by (simp add: frames_inv_def)
  have lenh: "length (data (arrays ?h a_v)) = length (data (arrays h1 a_v))"
    using inv by (simp add: frames_inv_def)
  have old: "\<And>k. length (data (arrays h1 a_v)) = length (data (arrays h1 a_t)) * n \<Longrightarrow>
        k < length (data (arrays h1 a_v)) \<Longrightarrow> data (arrays ?h a_v) ! k =
        (if k mod n < m then relabel (gm ! (k mod n)) (data (arrays h1 a_t) ! (k div n))
         else data (arrays h1 a_v) ! k)"
    using inv by (simp add: frames_inv_def)
  have n0: "0 < n" using Suc.prems by simp
  have 1: "fresh ?h' = fresh h1 + Suc m"
    using frame_step_facts(1)[OF av] fr by simp
  have 2: "\<forall>a<fresh h1. a \<noteq> a_v \<longrightarrow> arrays ?h' a = arrays h1 a"
  proof (intro allI impI)
    fix a assume a: "a < fresh h1" "a \<noteq> a_v"
    then have "a \<noteq> fresh ?h" using fr by simp
    then have "arrays ?h' a = arrays ?h a" using frame_step_facts(2)[OF av] a by simp
    then show "arrays ?h' a = arrays h1 a" using inv a by (simp add: frames_inv_def)
  qed
  have 3: "shape (arrays ?h' a_v) = shape (arrays h1 a_v)"
    using frame_step_facts(3)[OF av] inv by (simp add: frames_inv_def)
  have 4: "length (data (arrays ?h' a_v)) = length (data (arrays h1 a_v))"
    using frame_step_facts(4)[OF av] lenh by simp
  have 5: "length (data (arrays h1 a_v)) = length (data (arrays h1 a_t)) * n \<longrightarrow>
      (\<forall>k<length (data (arrays h1 a_v)). data (arrays ?h' a_v) ! k =
        (if k mod n < Suc m then relabel (gm ! (k mod n)) (data (arrays h1 a_t) ! (k div n))
         else data (arrays h1 a_v) ! k))"
  proof (intro allI impI)
    fix k assume len: "length (data (arrays h1 a_v)) = length (data (arrays h1 a_t)) * n"
      and k: "k < length (data (arrays h1 a_v))"
    then have kd: "k div n < length (data (arrays h1 a_t))"
      using len n0 by (simp add: less_mult_imp_div_less)
    have "data (arrays ?h' a_v) ! k =
            (if k mod n = m then map (relabel (gm ! m)) (data (arrays ?h a_t)) ! (k div n)
             else data (arrays ?h a_v) ! k)"
      using frame_step_facts(4)[OF av, of a_t gm n m] k lenh by simp
    also have "\<dots> = (if k mod n = m then relabel (gm ! m) (data (arrays h1 a_t) ! (k div n))
             else data (arrays ?h a_v) ! k)"
      using kd tmpl by simp
    also have "\<dots> = (if k mod n < Suc m then relabel (gm ! (k mod n)) (data (arrays h1 a_t) ! (k div n))
         else data (arrays h1 a_v) ! k)"
      using old[OF len k] by (auto simp: less_Suc_eq)
    finally show "data (arrays ?h' a_v) ! k =
        (if k mod n < Suc m then relabel (gm ! (k mod n)) (data (arrays h1 a_t) ! (k div n))
         else data (arrays h1 a_v) ! k)" .
  qed
  have "foldl (frame_step a_t gm a_v n) h1 [0..<Suc m] = ?h'" by simp
  then show ?case using 1 2 3 4 5 by (simp only: frames_inv_def)
qed

lemma index_div: "f < (n::nat) \<Longrightarrow> (j * n + f) div n = j"
  by simp

text \<open>
  The store after reconstruction: the output array is the one allocated first, no array
  that existed before has changed, and the element of voxel \<open>j\<close> at frame \<open>f\<close> is the
  template's element \<open>j\<close> after the substitutions of frame \<open>f\<close>.
\<close>

lemma create_dgfc_volumes_result:
  assumes "parcel_img self = Some a_t" and "a_t < fresh h"
    and "shape (arrays h a_t) = [x, y, z]"
    and "gdfc_matrix self = Some gm"
  shows "\<exists>h'. create_dgfc_volumes self h = Inr (self\<lparr>gdfc_img := Some (fresh h)\<rparr>, h') \<and>
           fresh h' = Suc (fresh h) + length gm \<and>
           (\<forall>a<fresh h. arrays h' a = arrays h a) \<and>
           shape (arrays h' (fresh h)) = [x, y, z, length gm] \<and>
           length (data (arrays h' (fresh h))) = x * y * z * length gm \<and>
           (length (data (arrays h a_t)) = x * y * z \<longrightarrow>
            (\<forall>j<length (data (arrays h a_t)). \<forall>f<length gm.
               data (arrays h' (fresh h)) ! (j * length gm + f) =
                 relabel (gm ! f) (data (arrays h a_t) ! j)))"
proof -
  let ?n = "length gm"
  let ?a_v = "fresh h"
  let ?h1 = "snd (alloc (zeros [x, y, z, ?n]) h)"
  let ?h2 = "foldl (frame_step a_t gm ?a_v ?n) ?h1 [0..<?n]"
  have res: "create_dgfc_volumes self h = Inr (self\<lparr>gdfc_img := Some ?a_v\<rparr>, ?h2)"
    using assms by (simp add: create_dgfc_volumes_def alloc_def Let_def)
  have fr1: "fresh ?h1 = Suc (fresh h)" by (simp add: alloc_def)
  have old1: "\<And>a. a < fresh h \<Longrightarrow> arrays ?h1 a = arrays h a" by (simp add: alloc_def)
  have vol1: "arrays ?h1 ?a_v = zeros [x, y, z, ?n]" by (simp add: alloc_def)
  have t1: "arrays ?h1 a_t = arrays h a_t" using old1 assms(2) by simp
  have ne: "a_t \<noteq> ?a_v" using assms(2) by simp
  have inv: "frames_inv a_t gm ?a_v ?n ?h1 ?n ?h2"
    by (rule frames_loop) (use assms(2) fr1 in simp_all)
  have fresh_h2: "fresh ?h2 = Suc (fresh h) + ?n"
    using inv fr1 by (simp add: frames_inv_def)
  have other_h2: "\<forall>a<fresh h. arrays ?h2 a = arrays h a"
  proof (intro allI impI)
    fix a assume a: "a < fresh h"
    then have "arrays ?h2 a = arrays ?h1 a"
      using inv fr1 by (simp add: frames_inv_def)
    then show "arrays ?h2 a = arrays h a" using old1[OF a] by simp
  qed
  have shape_h2: "shape (arrays ?h2 ?a_v) = [x, y, z, ?n]"
    using inv vol1 by (simp add: frames_inv_def zeros_def)
  have len_h2: "length (data (arrays ?h2 ?a_v)) = x * y * z * ?n"
    using inv vol1 by (simp add: frames_inv_def zeros_def)
  have data_h2: "data (arrays ?h2 ?a_v) ! (j * ?n + f) = relabel (gm ! f) (data (arrays h a_t) ! j)"
    if wf: "length (data (arrays h a_t)) = x * y * z"
      and j: "j < length (data (arrays h a_t))" and f: "f < ?n" for j f
  proof -
    have len: "length (data (arrays ?h1 ?a_v)) = length (data (arrays ?h1 a_t)) * ?n"
      using vol1 t1 wf by (simp add: zeros_def)
    have "j * ?n + f < length (data (arrays h a_t)) * ?n"
    proof -
      have "j * ?n + f < j * ?n + ?n" using f by simp
      also have "\<dots> = Suc j * ?n" by simp
      also have "\<dots> \<le> length (data (arrays h a_t)) * ?n"
        using j by (intro mult_le_mono1) simp
      finally show ?thesis .
    qed
    then have k: "j * ?n + f < length (data (arrays ?h1 ?a_v))"
      using len t1 by simp
    have "(j * ?n + f) mod ?n = f" "(j * ?n + f) div ?n = j"
      using f by (simp_all add: index_div)
    then show ?thesis
      using inv len k f t1 by (simp add: frames_inv_def)
  qed
  show ?thesis
    using res fresh_h2 other_h2 shape_h2 len_h2 data_h2 by blast
qed

lemma create_dgfc_volumes_labels:
  assumes "parcel_img self = Some a_t" and "a_t < fresh h"
    and "arrays h a_t = get_fdata [x, y, z] labels" and "length labels = x * y * z"
    and "gdfc_matrix self = Some gm"
  shows "\<exists>h'. create_dgfc_volumes self h = Inr (self\<lparr>gdfc_img := Some (fresh h)\<rparr>, h') \<and>
           shape (arrays h' (fresh h)) = [x, y, z, length gm] \<and>
           (\<forall>j<length labels. \<forall>f<length gm.
               data (arrays h' (fresh h)) ! (j * length gm + f) =
                 relabel (gm ! f) (Fin (real_of_int (labels ! j))))"
proof -
  have shp: "shape (arrays h a_t) = [x, y, z]" using assms(3) by (simp add: get_fdata_def)
  have dat: "data (arrays h a_t) = map (\<lambda>l. Fin (real_of_int l)) labels"
    using assms(3) by (simp add: get_fdata_def)
  have len: "length (data (arrays h a_t)) = x * y * z" using dat assms(4) by simp
  obtain h' where h': "create_dgfc_volumes self h = Inr (self\<lparr>gdfc_img := Some (fresh h)\<rparr>, h')"
    "shape (arrays h' (fresh h)) = [x, y, z, length gm]"
    "\<forall>j<length (data (arrays h a_t)). \<forall>f<length gm.
               data (arrays h' (fresh h)) ! (j * length gm + f) =
                 relabel (gm ! f) (data (arrays h a_t) ! j)"
    using create_dgfc_volumes_result[OF assms(1,2) shp assms(5)] len by blast
  have "\<forall>j<length labels. \<forall>f<length gm.
               data (arrays h' (fresh h)) ! (j * length gm + f) =
                 relabel (gm ! f) (Fin (real_of_int (labels ! j)))"
    using h'(3) dat by simp
  then show ?thesis using h'(1,2) by blast
qed

subsection \<open>The reconstructed volume\<close>

text \<open>
  Claim C1. Let the label volume have shape \<open>(x, y, z)\<close> and integer labels
  \<open>labels\<close> (voxel \<open>j\<close> in row-major order), and let there be one GlobalVector of
  length \<open>R\<close> per frame. Reconstruction returns a new array of shape
  \<open>(x, y, z, n_frames)\<close> in which, at every frame \<open>f\<close>, every voxel with a label \<open>l\<close>,
  \<open>1 \<le> l \<le> R\<close>, holds \<open>GlobalVector[f][l-1]\<close>, and every voxel with label 0 holds 0.
\<close>

theorem create_dgfc_volumes_values:
  assumes "parcel_img self = Some a_t" and "a_t < fresh h"
    and "arrays h a_t = get_fdata [x, y, z] labels" and "length labels = x * y * z"
    and "gdfc_matrix self = Some gm" and "\<forall>f<length gm. is_global_vector R (gm ! f)"
  shows "\<exists>self' h' a_v. create_dgfc_volumes self h = Inr (self', h') \<and>
           gdfc_img self' = Some a_v \<and>
           shape (arrays h' a_v) = [x, y, z, length gm] \<and>
           (\<forall>j<length labels. \<forall>f<length gm.
              (1 \<le> labels ! j \<and> labels ! j \<le> int R \<longrightarrow>
               data (arrays h' a_v) ! (j * length gm + f) = gm ! f ! nat (labels ! j - 1)) \<and>
              (labels ! j = 0 \<longrightarrow> data (arrays h' a_v) ! (j * length gm + f) = Fin 0))"
proof -
  obtain h' where h': "create_dgfc_volumes self h = Inr (self\<lparr>gdfc_img := Some (fresh h)\<rparr>, h')"
    "shape (arrays h' (fresh h)) = [x, y, z, length gm]"
    and out: "\<And>j f. j < length labels \<Longrightarrow> f < length gm \<Longrightarrow>
               data (arrays h' (fresh h)) ! (j * length gm + f) =
                 relabel (gm ! f) (Fin (real_of_int (labels ! j)))"
    using create_dgfc_volumes_labels[OF assms(1-5)] by blast
  have hit: "data (arrays h' (fresh h)) ! (j * length gm + f) = gm ! f ! nat (labels ! j - 1)"
    if "j < length labels" "f < length gm" "1 \<le> labels ! j" "labels ! j \<le> int R"
    for j f
  proof -
    have gv: "is_global_vector R (gm ! f)" using assms(6) that(2) by simp
    then have len: "length (gm ! f) = R" by (simp add: is_global_vector_def)
    have idx: "nat (labels ! j - 1) < R" using that(3,4) by linarith
    have val: "in_unit (gm ! f ! nat (labels ! j - 1)) \<or> is_nan (gm ! f ! nat (labels ! j - 1))"
      using gv idx by (simp add: is_global_vector_def list_all_length)
    have "\<forall>p. labels ! j < int p \<and> p \<le> length (gm ! f) \<longrightarrow>
            gm ! f ! nat (labels ! j - 1) \<noteq> Fin (real p)"
    proof (intro allI impI)
      fix p assume "labels ! j < int p \<and> p \<le> length (gm ! f)"
      then have "2 \<le> p" using that(3) by linarith
      then show "gm ! f ! nat (labels ! j - 1) \<noteq> Fin (real p)"
        using in_unit_no_label[OF val] by simp
    qed
    then have "relabel (gm ! f) (Fin (real_of_int (labels ! j))) = gm ! f ! nat (labels ! j - 1)"
      using that(3,4) len by (intro relabel_label) simp_all
    then show ?thesis using out[OF that(1,2)] by simp
  qed
  have bg: "data (arrays h' (fresh h)) ! (j * length gm + f) = Fin 0"
    if "j < length labels" "f < length gm" "labels ! j = 0" for j f
    using out[OF that(1,2)] relabel_outside[of 0 "gm ! f"] that(3) by simp
  have "gdfc_img (self\<lparr>gdfc_img := Some (fresh h)\<rparr>) = Some (fresh h)" by simp
  then show ?thesis using h' hit bg by blast
qed

text \<open>
  Claim C9, amended. Reconstruction checks no label. With a label volume that has
  voxels whose label is negative or greater than \<open>R\<close> it still returns the output array,
  and such a voxel holds its own label, as a number, at every frame.
\<close>

theorem create_dgfc_volumes_out_of_range:
  assumes "parcel_img self = Some a_t" and "a_t < fresh h"
    and "arrays h a_t = get_fdata [x, y, z] labels" and "length labels = x * y * z"
    and "gdfc_matrix self = Some gm" and "\<forall>f<length gm. length (gm ! f) = R"
  shows "\<exists>self' h' a_v. create_dgfc_volumes self h = Inr (self', h') \<and>
           gdfc_img self' = Some a_v \<and>
           shape (arrays h' a_v) = [x, y, z, length gm] \<and>
           (\<forall>j<length labels. \<forall>f<length gm.
              labels ! j < 0 \<or> int R < labels ! j \<longrightarrow>
              data (arrays h' a_v) ! (j * length gm + f) = Fin (real_of_int (labels ! j)))"
proof -
  obtain h' where h': "create_dgfc_volumes self h = Inr (self\<lparr>gdfc_img := Some (fresh h)\<rparr>, h')"
    "shape (arrays h' (fresh h)) = [x, y, z, length gm]"
    and out: "\<And>j f. j < length labels \<Longrightarrow> f < length gm \<Longrightarrow>
               data (arrays h' (fresh h)) ! (j * length gm + f) =
                 relabel (gm ! f) (Fin (real_of_int (labels ! j)))"
    using create_dgfc_volumes_labels[OF assms(1-5)] by blast
  have keep: "data (arrays h' (fresh h)) ! (j * length gm + f) = Fin (real_of_int (labels ! j))"
    if "j < length labels" "f < length gm" "labels ! j < 0 \<or> int R < labels ! j" for j f
  proof -
    have "length (gm ! f) = R" using assms(6) that(2) by simp
    then have "relabel (gm ! f) (Fin (real_of_int (labels ! j))) = Fin (real_of_int (labels ! j))"
      using that(3) by (intro relabel_outside) auto
    then show ?thesis using out[OF that(1,2)] by simp
  qed
  have "gdfc_img (self\<lparr>gdfc_img := Some (fresh h)\<rparr>) = Some (fresh h)" by simp
  then show ?thesis using h' keep by blast
qed

text \<open>
  Claim C10. Reconstruction leaves the label volume as it was: when it returns, the array
  of the label image is unchanged, and so is every other array that was allocated before
  the call; the image it builds lives at a newly allocated address. (Every exception of
  \<^verbatim>\<open>create_dgfc_volumes\<close> is raised before the first write.)
\<close>

theorem create_dgfc_volumes_frame:
  assumes "parcel_img self = Some a_t" and "a_t < fresh h"
    and "create_dgfc_volumes self h = Inr (self', h')"
  shows "arrays h' a_t = arrays h a_t \<and> parcel_img self' = Some a_t \<and>
         (\<forall>a<fresh h. arrays h' a = arrays h a) \<and>
         (\<exists>a_v. gdfc_img self' = Some a_v \<and> fresh h \<le> a_v \<and> a_v < fresh h')"
proof -
  obtain x y z where shp: "shape (arrays h a_t) = [x, y, z]"
    using assms(1,3)
    by (auto simp: create_dgfc_volumes_def split: list.splits option.splits)
  obtain gm where gm: "gdfc_matrix self = Some gm"
    using assms(1,3) shp
    by (auto simp: create_dgfc_volumes_def split: list.splits option.splits)
  obtain h2 where h2: "create_dgfc_volumes self h = Inr (self\<lparr>gdfc_img := Some (fresh h)\<rparr>, h2)"
    "fresh h2 = Suc (fresh h) + length gm" "\<forall>a<fresh h. arrays h2 a = arrays h a"
    using create_dgfc_volumes_result[OF assms(1,2) shp gm] by blast
  have eq: "self' = self\<lparr>gdfc_img := Some (fresh h)\<rparr>" "h' = h2"
    using h2(1) assms(3) by simp_all
  have "gdfc_img self' = Some (fresh h) \<and> fresh h \<le> fresh h \<and> fresh h < fresh h'"
    using eq h2(2) by simp
  then show ?thesis using eq h2(3) assms(1,2) by auto
qed

subsection \<open>Concrete runs\<close>

lemmas run_simps = create_dgfc_volumes_def alloc_def zeros_def frame_step_def mask_assign_def
  set_frame_def get_fdata_def empty_heap_def Let_def

text \<open>
  The values of a GlobalVector lie in \<open>[-1, 1]\<close>, so none of them is a label that is
  still to be substituted. With values outside that range the substitutions chain: for
  one voxel with label 1 and the values \<open>[2, 7]\<close> the first substitution writes 2, the
  second finds the 2 and writes 7.
\<close>

lemma create_dgfc_volumes_chained:
  "\<not> isl (create_dgfc_volumes
            \<lparr>parcel_img = Some 0, gdfc_matrix = Some [[Fin 2, Fin 7]], gdfc_img = None\<rparr>
            (snd (alloc (get_fdata [1, 1, 1] [1]) empty_heap))) \<and>
   gdfc_img (fst (projr (create_dgfc_volumes
            \<lparr>parcel_img = Some 0, gdfc_matrix = Some [[Fin 2, Fin 7]], gdfc_img = None\<rparr>
            (snd (alloc (get_fdata [1, 1, 1] [1]) empty_heap))))) = Some 1 \<and>
   data (arrays (snd (projr (create_dgfc_volumes
            \<lparr>parcel_img = Some 0, gdfc_matrix = Some [[Fin 2, Fin 7]], gdfc_img = None\<rparr>
            (snd (alloc (get_fdata [1, 1, 1] [1]) empty_heap))))) 1) ! (0 * 1 + 0) = Fin 7 \<and>
   [[Fin 2, Fin 7]] ! 0 ! nat (1 - 1) = Fin 2"
  by (simp add: run_simps)

text \<open>
  The theorem of C1 at a volume with the labels 0, 1, 2 and two frames.
\<close>

theorem create_dgfc_volumes_values_witness:
  "\<exists>self' h' a_v.
     create_dgfc_volumes
       \<lparr>parcel_img = Some 0,
        gdfc_matrix = Some [[Fin (1/2), Fin (- 1/4)], [Fin 0, Fin 1]], gdfc_img = None\<rparr>
       (snd (alloc (get_fdata [3, 1, 1] [0, 1, 2]) empty_heap)) = Inr (self', h') \<and>
     gdfc_img self' = Some a_v \<and>
     shape (arrays h' a_v) = [3, 1, 1, 2] \<and>
     data (arrays h' a_v) ! 0 = Fin 0 \<and> data (arrays h' a_v) ! 1 = Fin 0 \<and>
     data (arrays h' a_v) ! 2 = Fin (1/2) \<and> data (arrays h' a_v) ! 3 = Fin 0 \<and>
     data (arrays h' a_v) ! 4 = Fin (- 1/4) \<and> data (arrays h' a_v) ! 5 = Fin 1"
proof -
  let ?self = "\<lparr>parcel_img = Some 0,
        gdfc_matrix = Some [[Fin (1/2), Fin (- 1/4)], [Fin 0, Fin 1]], gdfc_img = None\<rparr>"
  let ?h = "snd (alloc (get_fdata [3, 1, 1] [0, 1, 2]) empty_heap)"
  let ?gm = "[[Fin (1/2), Fin (- 1/4)], [Fin 0, Fin 1]]"
  let ?labels = "[0, 1, 2] :: int list"
  have rows: "\<forall>f<length ?gm. is_global_vector 2 (?gm ! f)"
    by (simp add: less_Suc_eq is_global_vector_def)
  obtain self' h' a_v where r: "create_dgfc_volumes ?self ?h = Inr (self', h')"
    "gdfc_img self' = Some a_v" "shape (arrays h' a_v) = [3, 1, 1, length ?gm]"
    and v: "\<And>j f. j < length ?labels \<Longrightarrow> f < length ?gm \<Longrightarrow>
              (1 \<le> ?labels ! j \<and> ?labels ! j \<le> int 2 \<longrightarrow>
               data (arrays h' a_v) ! (j * length ?gm + f) = ?gm ! f ! nat (?labels ! j - 1)) \<and>
              (?labels ! j = 0 \<longrightarrow> data (arrays h' a_v) ! (j * length ?gm + f) = Fin 0)"
    using create_dgfc_volumes_values[where self = ?self and h = ?h and a_t = 0 and x = 3
        and y = 1 and z = 1 and labels = ?labels and gm = ?gm and R = 2, OF _ _ _ _ _ rows]
    by (simp add: alloc_def get_fdata_def empty_heap_def) blast
  have "data (arrays h' a_v) ! 0 = Fin 0" using v[of 0 0] by simp
  moreover have "data (arrays h' a_v) ! 1 = Fin 0" using v[of 0 1] by (simp add: eval_nat_numeral)
  moreover have "data (arrays h' a_v) ! 2 = Fin (1/2)" using v[of 1 0] by (simp add: eval_nat_numeral)
  moreover have "data (arrays h' a_v) ! 3 = Fin 0" using v[of 1 1] by (simp add: eval_nat_numeral)
  moreover have "data (arrays h' a_v) ! 4 = Fin (- 1/4)" using v[of 2 0] by (simp add: eval_nat_numeral)
  moreover have "data (arrays h' a_v) ! 5 = Fin 1" using v[of 2 1] by (simp add: eval_nat_numeral)
  ultimately show ?thesis using r by simp
qed

text \<open>
  Claim C9 as stated fails: with the labels 5 and \<open>-3\<close> and \<open>R = 2\<close> the call returns
  normally and the output holds 5 and \<open>-3\<close>.
\<close>

theorem create_dgfc_volumes_out_of_range_counterexample:
  "\<not> isl (create_dgfc_volumes
            \<lparr>parcel_img = Some 0, gdfc_matrix = Some [[Fin (1/2), Fin (1/4)]], gdfc_img = None\<rparr>
            (snd (alloc (get_fdata [2, 1, 1] [5, - 3]) empty_heap))) \<and>
   gdfc_img (fst (projr (create_dgfc_volumes
            \<lparr>parcel_img = Some 0, gdfc_matrix = Some [[Fin (1/2), Fin (1/4)]], gdfc_img = None\<rparr>
            (snd (alloc (get_fdata [2, 1, 1] [5, - 3]) empty_heap))))) = Some 1 \<and>
   arrays (snd (projr (create_dgfc_volumes
            \<lparr>parcel_img = Some 0, gdfc_matrix = Some [[Fin (1/2), Fin (1/4)]], gdfc_img = None\<rparr>
            (snd (alloc (get_fdata [2, 1, 1] [5, - 3]) empty_heap))))) 1 =
     \<lparr>shape = [2, 1, 1, 1], data = [Fin 5, Fin (- 3)]\<rparr>"
  by (simp add: run_simps eval_nat_numeral)

text \<open>
  The theorem of C9 at a volume with the labels 3, \<open>-1\<close> and 1, \<open>R = 2\<close>.
\<close>

theorem create_dgfc_volumes_out_of_range_witness:
  "\<exists>self' h' a_v.
     create_dgfc_volumes
       \<lparr>parcel_img = Some 0, gdfc_matrix = Some [[Fin (1/2), Fin (1/4)]], gdfc_img = None\<rparr>
       (snd (alloc (get_fdata [1, 3, 1] [3, - 1, 1]) empty_heap)) = Inr (self', h') \<and>
     gdfc_img self' = Some a_v \<and>
     shape (arrays h' a_v) = [1, 3, 1, 1] \<and>
     data (arrays h' a_v) ! 0 = Fin 3 \<and> data (arrays h' a_v) ! 1 = Fin (- 1)"
proof -
  let ?self = "\<lparr>parcel_img = Some 0, gdfc_matrix = Some [[Fin (1/2), Fin (1/4)]], gdfc_img = None\<rparr>"
  let ?h = "snd (alloc (get_fdata [1, 3, 1] [3, - 1, 1]) empty_heap)"
  let ?gm = "[[Fin (1/2), Fin (1/4)]]"
  let ?labels = "[3, - 1, 1] :: int list"
  have rows: "\<forall>f<length ?gm. length (?gm ! f) = 2" by simp
  obtain self' h' a_v where r: "create_dgfc_volumes ?self ?h = Inr (self', h')"
    "gdfc_img self' = Some a_v" "shape (arrays h' a_v) = [1, 3, 1, length ?gm]"
    and v: "\<And>j f. j < length ?labels \<Longrightarrow> f < length ?gm \<Longrightarrow>
              ?labels ! j < 0 \<or> int 2 < ?labels ! j \<Longrightarrow>
              data (arrays h' a_v) ! (j * length ?gm + f) = Fin (real_of_int (?labels ! j))"
    using create_dgfc_volumes_out_of_range[where self = ?self and h = ?h and a_t = 0 and x = 1
        and y = 3 and z = 1 and labels = ?labels and gm = ?gm and R = 2, OF _ _ _ _ _ rows]
    by (simp add: alloc_def get_fdata_def empty_heap_def) blast
  have "data (arrays h' a_v) ! 0 = Fin 3" using v[of 0 0] by simp
  moreover have "data (arrays h' a_v) ! 1 = Fin (- 1)" using v[of 1 0] by simp
  ultimately show ?thesis using r by simp
qed

text \<open>
  The theorem of C10 at a volume of two voxels: after the call the label array at
  address 0 is the one that was stored there.
\<close>

theorem create_dgfc_volumes_frame_witness:
  "arrays (snd (projr (create_dgfc_volumes
       \<lparr>parcel_img = Some 0, gdfc_matrix = Some [[Fin (1/2), Fin (1/4)]], gdfc_img = None\<rparr>
       (snd (alloc (get_fdata [1, 1, 2] [1, 2]) empty_heap))))) 0 = get_fdata [1, 1, 2] [1, 2] \<and>
   gdfc_img (fst (projr (create_dgfc_volumes
       \<lparr>parcel_img = Some 0, gdfc_matrix = Some [[Fin (1/2), Fin (1/4)]], gdfc_img = None\<rparr>
       (snd (alloc (get_fdata [1, 1, 2] [1, 2]) empty_heap))))) = Some 1"
proof -
  let ?self = "\<lparr>parcel_img = Some 0, gdfc_matrix = Some [[Fin (1/2), Fin (1/4)]], gdfc_img = None\<rparr>"
  let ?h = "snd (alloc (get_fdata [1, 1, 2] [1, 2]) empty_heap)"
  obtain self' h' where r: "create_dgfc_volumes ?self ?h = Inr (self', h')"
    by (simp add: run_simps)
  have "gdfc_img self' = Some 1" using r by (auto simp add: run_simps)
  moreover have "arrays h' 0 = arrays ?h 0"
    using create_dgfc_volumes_frame[where self = ?self and h = ?h and a_t = 0, OF _ _ r]
    by (simp add: alloc_def empty_heap_def)
  moreover have "arrays ?h 0 = get_fdata [1, 1, 2] [1, 2]"
    by (simp add: alloc_def empty_heap_def)
  ultimately show ?thesis using r by simp
qed

end
